theory Spec2Isabelle
  imports Main "HOL-Library.Sublist"
begin

section \<open>Strings of the Python runtime\<close>

text \<open>
  A Python \<open>str\<close> is a sequence of Unicode code points.  The script matches the bullet
  glyph U+25CF and uses \<open>str.strip\<close> and \<open>\s\<close>, which know the non-ASCII white space, so
  a character is modelled by its code point and a string by the list of its code points.
  \<open>str\<close> turns an ASCII literal into such a list.
\<close>

type_synonym pchar = nat
type_synonym pstr = "pchar list"

definition str :: "string \<Rightarrow> pstr" where
  "str s = map of_char s"

text \<open>White space as \<open>str.strip()\<close>, \<open>str.isspace()\<close> and the class \<open>\s\<close> of \<open>re\<close> see it.\<close>

definition is_space :: "pchar \<Rightarrow> bool" where
  "is_space c \<longleftrightarrow>
     (if c < 128 then (9 \<le> c \<and> c \<le> 13) \<or> (28 \<le> c \<and> c \<le> 32)
      else c = 133 \<or> c = 160 \<or> c = 5760 \<or> (8192 \<le> c \<and> c \<le> 8202) \<or>
           c = 8232 \<or> c = 8233 \<or> c = 8239 \<or> c = 8287 \<or> c = 12288)"

definition ascii_lower :: "pchar \<Rightarrow> pchar" where
  "ascii_lower c = (if 65 \<le> c \<and> c \<le> 90 then c + 32 else c)"

text \<open>
  \<open>eq_ignorecase p x\<close>: the pattern character \<open>p\<close> matches the text character \<open>x\<close> under
  \<open>re.IGNORECASE\<close>.  The patterns of the script consist of ASCII characters and the
  bullet; for these, besides the two ASCII cases, \<open>i\<close> also matches U+0130 and U+0131,
  \<open>s\<close> matches U+017F and \<open>k\<close> matches U+212A.
\<close>

definition eq_ignorecase :: "pchar \<Rightarrow> pchar \<Rightarrow> bool" where
  "eq_ignorecase p x \<longleftrightarrow>
     ascii_lower x = ascii_lower p \<or>
     (ascii_lower p = 105 \<and> (x = 304 \<or> x = 305)) \<or>
     (ascii_lower p = 115 \<and> x = 383) \<or>
     (ascii_lower p = 107 \<and> x = 8490)"

text \<open>
  Word characters of \<open>\b\<close>: ASCII letters, digits and the underscore; beyond ASCII the
  alphanumeric code points of the Unicode database of the runtime, which is not part of
  the repository and is taken as the parameter \<open>uw\<close>.
\<close>

definition is_word :: "(pchar \<Rightarrow> bool) \<Rightarrow> pchar \<Rightarrow> bool" where
  "is_word uw c \<longleftrightarrow>
     (48 \<le> c \<and> c \<le> 57) \<or> (65 \<le> c \<and> c \<le> 90) \<or> c = 95 \<or> (97 \<le> c \<and> c \<le> 122) \<or>
     (128 \<le> c \<and> uw c)"

text \<open>\<open>s.strip()\<close>, \<open>s.startswith(w)\<close>, \<open>w in s\<close> and \<open>s.split('\n')\<close>.\<close>

definition strip :: "pstr \<Rightarrow> pstr" where
  "strip s = rev (dropWhile is_space (rev (dropWhile is_space s)))"

fun startswith :: "pstr \<Rightarrow> pstr \<Rightarrow> bool" where
  "startswith s [] = True"
| "startswith [] (c # w) = False"
| "startswith (x # s) (c # w) = (x = c \<and> startswith s w)"

fun py_in :: "pstr \<Rightarrow> pstr \<Rightarrow> bool" where
  "py_in w [] = (w = [])"
| "py_in w (x # s) = (startswith (x # s) w \<or> py_in w s)"

fun split_nl :: "pstr \<Rightarrow> pstr list" where
  "split_nl [] = [[]]"
| "split_nl (c # cs) =
     (if c = 10 then [] # split_nl cs
      else (case split_nl cs of [] \<Rightarrow> [[c]] | l # ls \<Rightarrow> (c # l) # ls))"

section \<open>The regular expressions of the script\<close>

text \<open>
  The constructs that occur in the patterns of \<open>parse_deployments\<close>: literal text, \<open>^\<close>,
  \<open>\b\<close>, the greedy repetitions \<open>c*\<close> and \<open>c+\<close> and the lazy repetition \<open>c*?\<close> of a
  character class \<open>c\<close> (\<open>\s\<close>, \<open>\S\<close> or \<open>[^\s]\<close>, \<open>.\<close>), numbered groups, alternation and
  sequence.  \<open>WordB\<close> carries the word characters of the runtime.
\<close>

datatype cclass = Space | NonSpace | AnyChar

fun in_class :: "cclass \<Rightarrow> pchar \<Rightarrow> bool" where
  "in_class Space c = is_space c"
| "in_class NonSpace c = (\<not> is_space c)"
| "in_class AnyChar c = (c \<noteq> 10)"

datatype regex =
    Lit pstr
  | Bol
  | WordB "pchar \<Rightarrow> bool"
  | Star cclass
  | Plus cclass
  | LazyStar cclass
  | Grp nat regex
  | Alt regex regex
  | Seq regex regex

text \<open>
  A position of the matcher is the character before it (\<open>None\<close> at the start of the
  string) and the text that is left.  A closed group is recorded, as \<open>re\<close> records its
  span, by its number with the text left at its start and at its end; the latest group
  comes first.  The rest of the pattern is the continuation \<open>k\<close>, and a failure of the
  continuation makes the construct try its next alternative (backtracking).
\<close>

type_synonym marks = "(nat \<times> pstr \<times> pstr) list"
type_synonym 'r cont = "pchar option \<Rightarrow> pstr \<Rightarrow> marks \<Rightarrow> 'r option"

text \<open>A character \<open>c\<close> of a pattern against a character \<open>x\<close> of the text.\<close>

definition ceq :: "bool \<Rightarrow> pchar \<Rightarrow> pchar \<Rightarrow> bool" where
  "ceq ic c x = (if ic then eq_ignorecase c x else c = x)"

fun lit_match :: "bool \<Rightarrow> pstr \<Rightarrow> 'r cont \<Rightarrow> 'r cont" where
  "lit_match ic [] k p xs m = k p xs m"
| "lit_match ic (c # w) k p [] m = None"
| "lit_match ic (c # w) k p (x # xs) m =
     (if ceq ic c x then lit_match ic w k (Some x) xs m else None)"

definition is_boundary :: "(pchar \<Rightarrow> bool) \<Rightarrow> pchar option \<Rightarrow> pstr \<Rightarrow> bool" where
  "is_boundary w p xs \<longleftrightarrow>
     (case p of None \<Rightarrow> False | Some c \<Rightarrow> w c) \<noteq> (case xs of [] \<Rightarrow> False | c # _ \<Rightarrow> w c)"

text \<open>One character of a class; a greedy run (the longest first); a lazy run (the shortest first).\<close>

fun one :: "cclass \<Rightarrow> 'r cont \<Rightarrow> 'r cont" where
  "one c k p [] m = None"
| "one c k p (x # xs) m = (if in_class c x then k (Some x) xs m else None)"

fun greedy :: "cclass \<Rightarrow> 'r cont \<Rightarrow> 'r cont" where
  "greedy c k p [] m = k p [] m"
| "greedy c k p (x # xs) m =
     (if in_class c x
      then (case greedy c k (Some x) xs m of Some r \<Rightarrow> Some r | None \<Rightarrow> k p (x # xs) m)
      else k p (x # xs) m)"

fun lazy :: "cclass \<Rightarrow> 'r cont \<Rightarrow> 'r cont" where
  "lazy c k p [] m = k p [] m"
| "lazy c k p (x # xs) m =
     (case k p (x # xs) m of
        Some r \<Rightarrow> Some r
      | None \<Rightarrow> (if in_class c x then lazy c k (Some x) xs m else None))"

primrec rmatch :: "bool \<Rightarrow> regex \<Rightarrow> 'r cont \<Rightarrow> 'r cont" where
  "rmatch ic (Lit w) k = lit_match ic w k"
| "rmatch ic Bol k = (\<lambda>p xs m. if p = None then k p xs m else None)"
| "rmatch ic (WordB w) k = (\<lambda>p xs m. if is_boundary w p xs then k p xs m else None)"
| "rmatch ic (Star c) k = greedy c k"
| "rmatch ic (Plus c) k = one c (greedy c k)"
| "rmatch ic (LazyStar c) k = lazy c k"
| "rmatch ic (Grp g r) k =
     (\<lambda>p xs m. rmatch ic r (\<lambda>p' xs' m'. k p' xs' ((g, xs, xs') # m')) p xs m)"
| "rmatch ic (Alt r1 r2) k =
     (\<lambda>p xs m. case rmatch ic r1 k p xs m of Some c \<Rightarrow> Some c | None \<Rightarrow> rmatch ic r2 k p xs m)"
| "rmatch ic (Seq r1 r2) k = rmatch ic r1 (rmatch ic r2 k)"

text \<open>
  \<open>re.search\<close>: the leftmost start position at which the pattern matches; \<open>ic\<close> is the
  flag \<open>re.IGNORECASE\<close>.  The result is the list of the groups of the match.
\<close>

fun search_from :: "bool \<Rightarrow> regex \<Rightarrow> pchar option \<Rightarrow> pstr \<Rightarrow> marks option" where
  "search_from ic r p [] = rmatch ic r (\<lambda>p' xs' m'. Some m') p [] []"
| "search_from ic r p (x # xs) =
     (case rmatch ic r (\<lambda>p' xs' m'. Some m') p (x # xs) [] of
        Some m \<Rightarrow> Some m
      | None \<Rightarrow> search_from ic r (Some x) xs)"

definition re_search :: "bool \<Rightarrow> regex \<Rightarrow> pstr \<Rightarrow> marks option" where
  "re_search ic r s = search_from ic r None s"

text \<open>\<open>match.group(g)\<close>; every group of the script's patterns takes part in every match.\<close>

definition group :: "nat \<Rightarrow> marks \<Rightarrow> pstr" where
  "group g m = (case map_of m g of Some (a, b) \<Rightarrow> take (length a - length b) a | None \<Rightarrow> [])"

text \<open>\<open>len(match.groups())\<close>: the number of groups of the pattern.\<close>

primrec ngroups :: "regex \<Rightarrow> nat" where
  "ngroups (Lit w) = 0"
| "ngroups Bol = 0"
| "ngroups (WordB w) = 0"
| "ngroups (Star c) = 0"
| "ngroups (Plus c) = 0"
| "ngroups (LazyStar c) = 0"
| "ngroups (Grp g r) = Suc (ngroups r)"
| "ngroups (Alt r1 r2) = ngroups r1 + ngroups r2"
| "ngroups (Seq r1 r2) = ngroups r1 + ngroups r2"

fun seqs :: "regex list \<Rightarrow> regex" where
  "seqs [] = Lit []"
| "seqs [r] = r"
| "seqs (r # rs) = Seq r (seqs rs)"

definition https :: pstr where
  "https = str ''https://''"

definition bullet :: pstr where
  "bullet = [9679]"

text \<open>\<open>(https://[^\s]+)\<close> and \<open>(Building|Queued|building|queued)\<close>.\<close>

definition url_group :: regex where
  "url_group = Grp 1 (Seq (Lit https) (Plus NonSpace))"

definition status_alt :: regex where
  "status_alt =
     Alt (Lit (str ''Building'')) (Alt (Lit (str ''Queued''))
       (Alt (Lit (str ''building'')) (Lit (str ''queued''))))"

definition partial_alt :: regex where
  "partial_alt =
     Alt (Lit (str ''Build'')) (Alt (Lit (str ''Queue''))
       (Alt (Lit (str ''build'')) (Lit (str ''queue''))))"

text \<open>The five patterns of the first loop, in the order of the source.\<close>

definition pattern1 :: regex where
  "pattern1 = seqs [Bol, Star Space, Plus NonSpace, Plus Space, url_group, Plus Space,
                    Lit bullet, Star Space, Grp 2 status_alt]"

definition pattern2 :: regex where
  "pattern2 = seqs [Bol, Star Space, Plus NonSpace, Plus Space, url_group, Plus Space,
                    Grp 2 status_alt]"

definition pattern3 :: regex where
  "pattern3 = seqs [url_group, LazyStar AnyChar, Plus Space, Grp 2 status_alt]"

definition pattern4 :: regex where
  "pattern4 = seqs [url_group, LazyStar AnyChar, Grp 2 status_alt]"

definition pattern5 :: regex where
  "pattern5 = seqs [url_group, LazyStar AnyChar, Plus Space, Grp 2 partial_alt]"

definition patterns :: "regex list" where
  "patterns = [pattern1, pattern2, pattern3, pattern4, pattern5]"

section \<open>\<open>parse_deployments\<close>\<close>

type_synonym deployment = "pstr \<times> pstr"

text \<open>The test of line 221 for a table header, on the stripped line.\<close>

definition has_header_keyword :: "pstr \<Rightarrow> bool" where
  "has_header_keyword line \<longleftrightarrow>
     py_in (str ''Age'') line \<or> py_in (str ''Deployment'') line \<or> py_in (str ''Status'') line \<or>
     py_in (str ''Environment'') line \<or> py_in (str ''Duration'') line"

text \<open>
  The loop over the patterns (lines 253 to 261): the first pattern that \<open>re.search\<close>
  finds in the original line gives the pair of its groups 1 and 2.
\<close>

fun first_match :: "regex list \<Rightarrow> pstr \<Rightarrow> deployment option" where
  "first_match [] l = None"
| "first_match (p # ps) l =
     (case re_search True p l of
        Some m \<Rightarrow> Some (group 1 m, group 2 m)
      | None \<Rightarrow> first_match ps l)"

definition MAX_PARSE_ROWS :: nat where
  "MAX_PARSE_ROWS = 10"

text \<open>
  The first loop (lines 214 to 264).  Its state is the variables of the source; of the
  log it keeps the three messages that tell what a line was taken for: the header found
  at a line (line 222), the attempt to parse a row (line 232) and the row cap (line 235),
  each with the index \<open>i\<close> of the line.
\<close>

datatype pevent = FoundHeader nat | TryRow nat | RowCap nat

record pstate =
  start_parsing :: bool
  header_found :: bool
  parse_count :: nat
  deployments :: "deployment list"
  events :: "pevent list"

fun primary_loop :: "pstate \<Rightarrow> (nat \<times> pstr) list \<Rightarrow> pstate" where
  "primary_loop st [] = st"
| "primary_loop st ((i, original_line) # others) =
     (let line = strip original_line in
      if line = [] then primary_loop st others
      else if \<not> header_found st \<and> has_header_keyword line then
        primary_loop (st\<lparr>header_found := True, start_parsing := True,
                          events := events st @ [FoundHeader i]\<rparr>) others
      else if \<not> start_parsing st then primary_loop st others
      else
        (let st1 = st\<lparr>parse_count := parse_count st + 1, events := events st @ [TryRow i]\<rparr> in
         if parse_count st1 > MAX_PARSE_ROWS then st1\<lparr>events := events st1 @ [RowCap i]\<rparr>
         else (case first_match patterns original_line of
                 Some d \<Rightarrow> primary_loop (st1\<lparr>deployments := deployments st1 @ [d]\<rparr>) others
               | None \<Rightarrow> primary_loop st1 others)))"

definition parse_primary :: "pstr list \<Rightarrow> pstate" where
  "parse_primary lines =
     primary_loop \<lparr>start_parsing = False, header_found = False, parse_count = 0,
                   deployments = [], events = []\<rparr> (enumerate 0 lines)"

subsection \<open>The second loop, entered when no header was found\<close>

text \<open>\<open>\b(Building|Queued|building|queued)\b\<close> and the three patterns of lines 284 to 290.\<close>

definition status_word :: "(pchar \<Rightarrow> bool) \<Rightarrow> regex" where
  "status_word uw = seqs [WordB (is_word uw), Grp 1 status_alt, WordB (is_word uw)]"

definition fb_pattern1 :: regex where
  "fb_pattern1 = seqs [url_group, LazyStar AnyChar, Lit bullet, Star Space, Grp 2 status_alt]"

definition fb_pattern2 :: regex where
  "fb_pattern2 = seqs [url_group, LazyStar AnyChar, Grp 2 status_alt]"

definition fb_pattern3 :: regex where
  "fb_pattern3 = seqs [Bol, url_group]"

definition fallback_patterns :: "regex list" where
  "fallback_patterns = [fb_pattern1, fb_pattern2, fb_pattern3]"

text \<open>
  The search of the neighbouring lines (lines 308 to 320): \<open>js\<close> is
  \<open>range(max(0, i-2), min(len(lines), i+3))\<close>, so every \<open>j\<close> is a valid index; the first
  line other than line \<open>i\<close> in which the status occurs as a word gives the status.
\<close>

fun neighbour_loop :: "(pchar \<Rightarrow> bool) \<Rightarrow> pstr list \<Rightarrow> nat \<Rightarrow> nat list \<Rightarrow> pstr option" where
  "neighbour_loop uw lines i [] = None"
| "neighbour_loop uw lines i (j # js) =
     (if i = j then neighbour_loop uw lines i js
      else (case re_search True (status_word uw) (strip (lines ! j)) of
              Some m \<Rightarrow> Some (group 1 m)
            | None \<Rightarrow> neighbour_loop uw lines i js))"

definition search_range :: "pstr list \<Rightarrow> nat \<Rightarrow> nat list" where
  "search_range lines i = [i - 2 ..< min (length lines) (i + 3)]"

text \<open>
  The loop over the fallback patterns (lines 293 to 323).  A pattern with two groups
  gives the record at once; the pattern with one group gives the URL, and the record
  only if a neighbouring line has the status, otherwise the loop goes on.
\<close>

fun fallback_try :: "(pchar \<Rightarrow> bool) \<Rightarrow> pstr list \<Rightarrow> nat \<Rightarrow> regex list \<Rightarrow> deployment option" where
  "fallback_try uw lines i [] = None"
| "fallback_try uw lines i (p # ps) =
     (case re_search True p (lines ! i) of
        None \<Rightarrow> fallback_try uw lines i ps
      | Some m \<Rightarrow>
          if ngroups p \<ge> 2 then Some (group 1 m, group 2 m)
          else (case neighbour_loop uw lines i (search_range lines i) of
                  Some status \<Rightarrow> Some (group 1 m, status)
                | None \<Rightarrow> fallback_try uw lines i ps))"

text \<open>
  What the body of the second loop appends for line \<open>i\<close> (lines 276 to 326): nothing for
  a blank line, a line that starts with \<open>>\<close> or \<open>You can learn more\<close>, or a line
  without \<open>https://\<close>.
\<close>

definition fallback_row :: "(pchar \<Rightarrow> bool) \<Rightarrow> pstr list \<Rightarrow> nat \<Rightarrow> deployment list" where
  "fallback_row uw lines i =
     (let original_line = lines ! i; line = strip original_line in
      if line = [] \<or> startswith line (str ''>'') \<or> startswith line (str ''You can learn more'')
      then []
      else if py_in https original_line then
        (case fallback_try uw lines i fallback_patterns of Some d \<Rightarrow> [d] | None \<Rightarrow> [])
      else [])"

text \<open>
  The second loop (lines 271 to 326) over the indices of the lines.  \<open>parse_count\<close> is
  set to 0 before the loop and tested at the head of each round; the body never
  changes it, so it is passed on as it is (as \<open>parse_count2\<close>, the name being taken by
  the field of the first loop).
\<close>

fun fallback_loop ::
  "(pchar \<Rightarrow> bool) \<Rightarrow> pstr list \<Rightarrow> nat \<Rightarrow> deployment list \<Rightarrow> nat list \<Rightarrow> deployment list" where
  "fallback_loop uw lines parse_count2 ds [] = ds"
| "fallback_loop uw lines parse_count2 ds (i # others) =
     (if parse_count2 \<ge> 10 then ds
      else fallback_loop uw lines parse_count2 (ds @ fallback_row uw lines i) others)"

subsection \<open>The last resort: guessing from the URLs alone\<close>

text \<open>
  The value \<open>v\<close> of the environment variable \<open>AUTO_CONFIRM_AGGRESSIVE_CLEANUP\<close> (the
  empty string when it is not set) confirms when its lower case is \<open>true\<close>, \<open>1\<close> or
  \<open>yes\<close>; only ASCII capitals are lowered to the letters of these words.
\<close>

definition auto_confirm :: "pstr \<Rightarrow> bool" where
  "auto_confirm v \<longleftrightarrow> map ascii_lower v \<in> set [str ''true'', str ''1'', str ''yes'']"

definition has_url :: "pstr \<Rightarrow> bool" where
  "has_url l \<longleftrightarrow> py_in https l \<and> strip l \<noteq> []"

definition url_lines :: "pstr list \<Rightarrow> pstr list" where
  "url_lines lines = map strip (filter has_url lines)"

fun aggressive_loop :: "pstr \<Rightarrow> deployment list \<Rightarrow> (nat \<times> pstr) list \<Rightarrow> deployment list" where
  "aggressive_loop v ds [] = ds"
| "aggressive_loop v ds ((i, url_line) # others) =
     (if py_in https url_line then
        (case re_search False url_group url_line of
           Some m \<Rightarrow>
             (let deployment_url = group 1 m;
                  assumed_status = (if i = 0 then str ''Building'' else str ''Queued'')
              in if auto_confirm v
                 then aggressive_loop v (ds @ [(deployment_url, assumed_status)]) others
                 else aggressive_loop v ds others)
         | None \<Rightarrow> aggressive_loop v ds others)
      else aggressive_loop v ds others)"

text \<open>
  \<open>parse_deployments\<close> (lines 189 to 360): \<open>uw\<close> is the table of the non-ASCII word
  characters, \<open>v\<close> the value of the environment variable above.
\<close>

definition parse_lines :: "(pchar \<Rightarrow> bool) \<Rightarrow> pstr \<Rightarrow> pstr list \<Rightarrow> deployment list" where
  "parse_lines uw v lines =
     (let st = parse_primary lines;
          ds1 = deployments st;
          ds2 = (if \<not> header_found st then fallback_loop uw lines 0 ds1 [0 ..< length lines]
                 else ds1)
      in if length ds2 = 0 \<and> length (filter has_url lines) \<ge> 3
         then aggressive_loop v ds2 (enumerate 0 (take 3 (url_lines lines)))
         else ds2)"

definition parse_deployments :: "(pchar \<Rightarrow> bool) \<Rightarrow> pstr \<Rightarrow> pstr \<Rightarrow> deployment list" where
  "parse_deployments uw v output = parse_lines uw v (split_nl output)"

section \<open>Listing, deleting and the clean-up of a project\<close>

text \<open>
  \<open>subprocess.run\<close> is the outside world: \<open>run\<close> takes the way of execution, the command,
  the timeout in seconds and the state \<open>'w\<close> of the world, and gives the completed
  process, or \<open>None\<close> when the call raises (a timeout, a missing executable, any other
  exception), with the new state of the world.
\<close>

record proc_result =
  returncode :: int
  stdout :: pstr
  stderr :: pstr

datatype exec_method = Standard | UseShell | Unbuffered

datatype command = Argv "pstr list" | ShellLine pstr

type_synonym 'w runner = "exec_method \<Rightarrow> command \<Rightarrow> nat \<Rightarrow> 'w \<Rightarrow> proc_result option \<times> 'w"

definition execution_methods :: "exec_method list" where
  "execution_methods = [Standard, UseShell, Unbuffered]"

fun join_with :: "pstr \<Rightarrow> pstr list \<Rightarrow> pstr" where
  "join_with sep [] = []"
| "join_with sep [x] = x"
| "join_with sep (x # xs) = x @ sep @ join_with sep xs"

definition shell_cmd :: "pstr list \<Rightarrow> pstr" where
  "shell_cmd cmd =
     join_with (str '' '') (map (\<lambda>part. if py_in (str '' '') part then 34 # part @ [34] else part) cmd)"

text \<open>The loop over the ways of execution (lines 102 to 130): the first call that returns.\<close>

fun run_methods :: "'w runner \<Rightarrow> pstr list \<Rightarrow> exec_method list \<Rightarrow> 'w \<Rightarrow> proc_result option \<times> 'w" where
  "run_methods run cmd [] w = (None, w)"
| "run_methods run cmd (method # others) w =
     (case run method (if method = UseShell then ShellLine (shell_cmd cmd) else Argv cmd) 30 w of
        (Some result, w') \<Rightarrow> (Some result, w')
      | (None, w') \<Rightarrow> run_methods run cmd others w')"

definition combined_output :: "proc_result \<Rightarrow> pstr" where
  "combined_output result =
     (if stdout result \<noteq> [] then stdout result else []) @
     (if stderr result \<noteq> [] then 10 # stderr result else [])"

text \<open>The loop over the commands (lines 83 to 179): the first output that is not blank.\<close>

fun try_commands :: "'w runner \<Rightarrow> pstr list list \<Rightarrow> 'w \<Rightarrow> pstr option \<times> 'w" where
  "try_commands run [] w = (None, w)"
| "try_commands run (cmd # others) w =
     (case run_methods run cmd execution_methods w of
        (None, w') \<Rightarrow> try_commands run others w'
      | (Some result, w') \<Rightarrow>
          if strip (combined_output result) \<noteq> [] then (Some (combined_output result), w')
          else try_commands run others w')"

definition list_deployments :: "'w runner \<Rightarrow> pstr \<Rightarrow> pstr \<Rightarrow> 'w \<Rightarrow> pstr option \<times> 'w" where
  "list_deployments run project token w =
     try_commands run
       [[str ''vercel'', str ''list'', project, str ''--token'', token],
        [str ''vercel'', str ''ls'', project, str ''--token'', token],
        [str ''vercel'', str ''deployments'', str ''list'', project, str ''--token'', token]] w"

definition delete_deployment :: "'w runner \<Rightarrow> pstr \<Rightarrow> pstr \<Rightarrow> 'w \<Rightarrow> bool \<times> 'w" where
  "delete_deployment run deployment_url token w =
     (case run Standard (Argv [str ''vercel'', str ''rm'', deployment_url, str ''--token'', token,
                               str ''-y'']) 60 w of
        (Some result, w') \<Rightarrow> (returncode result = 0, w')
      | (None, w') \<Rightarrow> (False, w'))"

text \<open>
  The loop of \<open>cleanup_project_deployments\<close> (lines 427 to 445) over
  \<open>enumerate(deployments, 1)\<close>.  Besides the two counters and the world, the state keeps
  what the loop did with each record: \<open>Kept\<close> for the record it skips (line 432),
  \<open>Deleted\<close> for a call of \<open>delete_deployment\<close> with its result (line 437).  The pause
  of one second between two deletions changes none of them and is left out.
\<close>

datatype cevent = Kept pstr pstr | Deleted pstr pstr bool

record 'w cstate =
  success_count :: nat
  attempted :: nat
  world :: 'w
  trace :: "cevent list"

fun delete_loop :: "'w runner \<Rightarrow> pstr \<Rightarrow> 'w cstate \<Rightarrow> (nat \<times> deployment) list \<Rightarrow> 'w cstate" where
  "delete_loop run token st [] = st"
| "delete_loop run token st ((i, (deployment_url, status)) # others) =
     (if i = 1 then delete_loop run token (st\<lparr>trace := trace st @ [Kept deployment_url status]\<rparr>) others
      else
        (case delete_deployment run deployment_url token (world st) of
           (ok, w') \<Rightarrow>
             delete_loop run token
               (st\<lparr>attempted := attempted st + 1,
                   success_count := (if ok then success_count st + 1 else success_count st),
                   world := w',
                   trace := trace st @ [Deleted deployment_url status ok]\<rparr>) others))"

text \<open>
  \<open>cleanup_project_deployments\<close> (lines 396 to 448) returns the pair
  \<open>(success_count, attempted)\<close>; the model adds the trace and the world.
\<close>

definition cleanup_project_deployments ::
  "'w runner \<Rightarrow> (pchar \<Rightarrow> bool) \<Rightarrow> pstr \<Rightarrow> pstr \<Rightarrow> pstr \<Rightarrow> 'w \<Rightarrow> (nat \<times> nat) \<times> cevent list \<times> 'w" where
  "cleanup_project_deployments run uw v project token w =
     (case list_deployments run project token w of
        (None, w') \<Rightarrow> ((0, 0), [], w')
      | (Some output, w') \<Rightarrow>
          if output = [] then ((0, 0), [], w')
          else
            (let ds = parse_deployments uw v output in
             if ds = [] then ((0, 0), [], w')
             else
               (let st = delete_loop run token
                           \<lparr>success_count = 0, attempted = 0, world = w', trace = []\<rparr>
                           (enumerate 1 ds)
                in ((success_count st, attempted st), trace st, world st))))"

text \<open>
  The loop of \<open>main\<close> over the projects (lines 493 to 506): the totals of the two
  counters, with the traces of the projects one after the other.
\<close>

fun project_loop ::
  "'w runner \<Rightarrow> (pchar \<Rightarrow> bool) \<Rightarrow> pstr \<Rightarrow> pstr \<Rightarrow> (nat \<times> nat) \<times> cevent list \<times> 'w \<Rightarrow> pstr list \<Rightarrow>
   (nat \<times> nat) \<times> cevent list \<times> 'w" where
  "project_loop run uw v token acc [] = acc"
| "project_loop run uw v token ((total_success, total_attempted), tr, w) (project # others) =
     (case cleanup_project_deployments run uw v project token w of
        ((success, attempted1), tr', w') \<Rightarrow>
          project_loop run uw v token
            ((total_success + success, total_attempted + attempted1), tr @ tr', w') others)"

section \<open>Notions used to state the properties\<close>

fun lit_prefix :: "bool \<Rightarrow> pstr \<Rightarrow> pstr \<Rightarrow> bool" where
  "lit_prefix ic [] xs = True"
| "lit_prefix ic (c # w) [] = False"
| "lit_prefix ic (c # w) (x # xs) = (ceq ic c x \<and> lit_prefix ic w xs)"

fun lit_in :: "bool \<Rightarrow> pstr \<Rightarrow> pstr \<Rightarrow> bool" where
  "lit_in ic w [] = lit_prefix ic w []"
| "lit_in ic w (x # xs) = (lit_prefix ic w (x # xs) \<or> lit_in ic w xs)"






text \<open>
  What the trace of a clean-up says: the records it kept, the records it passed to
  \<open>delete_deployment\<close>, and the number of deletions that succeeded.
\<close>

fun kept_of :: "cevent list \<Rightarrow> deployment list" where
  "kept_of [] = []"
| "kept_of (Kept u s # es) = (u, s) # kept_of es"
| "kept_of (Deleted u s ok # es) = kept_of es"

fun deleted_of :: "cevent list \<Rightarrow> deployment list" where
  "deleted_of [] = []"
| "deleted_of (Kept u s # es) = deleted_of es"
| "deleted_of (Deleted u s ok # es) = (u, s) # deleted_of es"

fun successes :: "cevent list \<Rightarrow> nat" where
  "successes [] = 0"
| "successes (Kept u s # es) = successes es"
| "successes (Deleted u s ok # es) = (if ok then Suc (successes es) else successes es)"

text \<open>
  Sample collaborators for the examples: a table of word characters without non-ASCII
  entries (the examples are ASCII, for which the table is not consulted); a command
  runner that answers every listing (timeout 30) with the output \<open>out\<close> and lets every
  deletion succeed; and one whose every call raises.
\<close>

definition plain_words :: "pchar \<Rightarrow> bool" where
  "plain_words c = False"

definition sample_run :: "pstr \<Rightarrow> unit runner" where
  "sample_run out method cmd timeout w =
     (Some \<lparr>returncode = 0, stdout = (if timeout = 30 then out else []), stderr = []\<rparr>, w)"

definition failing_run :: "unit runner" where
  "failing_run method cmd timeout w = (None, w)"

definition sample_table :: pstr where
  "sample_table = str ''Age\<newline>x https://a Queued\<newline>x https://b building''"

definition nonblank :: "pstr \<Rightarrow> bool" where
  "nonblank l \<longleftrightarrow> strip l \<noteq> []"

definition sample_lines :: "pstr list" where
  "sample_lines = [str ''status x'', str ''Age Status'', str ''x https://a Queued'',
                   str ''Status https://b Building'']"




definition eleven_rows :: pstr where
  "eleven_rows = str ''https://a Queued\<newline>https://b Queued\<newline>https://c Queued\<newline>https://d Queued\<newline>https://e Queued\<newline>https://f Queued\<newline>https://g Queued\<newline>https://h Queued\<newline>https://i Queued\<newline>https://j Queued\<newline>https://k Queued''"

section \<open>Evaluation\<close>

text \<open>The definitions that the simplifier unfolds to run the model on a concrete input.\<close>

lemmas run_parse =
  parse_deployments_def parse_lines_def parse_primary_def strip_def fallback_row_def has_url_def
  url_lines_def has_header_keyword_def MAX_PARSE_ROWS_def patterns_def re_search_def
  pattern1_def pattern2_def pattern3_def pattern4_def pattern5_def url_group_def status_alt_def
  partial_alt_def https_def bullet_def str_def is_space_def eq_ignorecase_def ascii_lower_def
  group_def ceq_def fallback_patterns_def fb_pattern1_def fb_pattern2_def fb_pattern3_def
  status_word_def search_range_def is_boundary_def is_word_def auto_confirm_def plain_words_def

lemmas run_cleanup =
  cleanup_project_deployments_def list_deployments_def execution_methods_def combined_output_def
  delete_deployment_def sample_run_def failing_run_def

section \<open>What a match of a pattern implies\<close>















section \<open>The clean-up of a project\<close>

lemma kept_of_append: "kept_of (a @ b) = kept_of a @ kept_of b"
  by (induction a rule: kept_of.induct) auto

lemma deleted_of_append: "deleted_of (a @ b) = deleted_of a @ deleted_of b"
  by (induction a rule: deleted_of.induct) auto

lemma successes_append: "successes (a @ b) = successes a + successes b"
  by (induction a rule: successes.induct) auto

lemma delete_loop_rest:
  "2 \<le> n \<Longrightarrow>
   kept_of (trace (delete_loop run token st (enumerate n ds))) = kept_of (trace st) \<and>
   deleted_of (trace (delete_loop run token st (enumerate n ds))) = deleted_of (trace st) @ ds \<and>
   attempted (delete_loop run token st (enumerate n ds)) = attempted st + length ds \<and>
   success_count (delete_loop run token st (enumerate n ds)) + successes (trace st) =
     success_count st + successes (trace (delete_loop run token st (enumerate n ds))) \<and>
   successes (trace (delete_loop run token st (enumerate n ds))) \<le> successes (trace st) + length ds"
proof (induction ds arbitrary: st n)
  case Nil
  then show ?case by simp
next
  case (Cons d ds)
  obtain u s where d: "d = (u, s)" by (cases d)
  obtain ok w' where r: "delete_deployment run u token (world st) = (ok, w')"
    by (cases "delete_deployment run u token (world st)")
  define st' where "st' = st\<lparr>attempted := attempted st + 1,
                 success_count := (if ok then success_count st + 1 else success_count st),
                 world := w', trace := trace st @ [Deleted u s ok]\<rparr>"
  have step: "delete_loop run token st (enumerate n (d # ds)) = delete_loop run token st' (enumerate (Suc n) ds)"
    using Cons.prems d r by (simp add: st'_def)
  have f: "kept_of (trace st') = kept_of (trace st)"
    "deleted_of (trace st') = deleted_of (trace st) @ [d]"
    "attempted st' = attempted st + 1"
    "success_count st' + successes (trace st) = success_count st + successes (trace st')"
    "successes (trace st') \<le> successes (trace st) + 1"
    by (simp_all add: st'_def kept_of_append deleted_of_append successes_append d)
  have "2 \<le> Suc n" using Cons.prems by simp
  from Cons.IH[OF this, of st'] f show ?case
    unfolding step by simp
qed

lemma delete_loop_all:
  "kept_of (trace (delete_loop run token \<lparr>success_count = 0, attempted = 0, world = w, trace = []\<rparr> (enumerate 1 ds))) = take 1 ds \<and>
   deleted_of (trace (delete_loop run token \<lparr>success_count = 0, attempted = 0, world = w, trace = []\<rparr> (enumerate 1 ds))) = drop 1 ds \<and>
   attempted (delete_loop run token \<lparr>success_count = 0, attempted = 0, world = w, trace = []\<rparr> (enumerate 1 ds)) = length ds - 1 \<and>
   success_count (delete_loop run token \<lparr>success_count = 0, attempted = 0, world = w, trace = []\<rparr> (enumerate 1 ds)) =
     successes (trace (delete_loop run token \<lparr>success_count = 0, attempted = 0, world = w, trace = []\<rparr> (enumerate 1 ds))) \<and>
   successes (trace (delete_loop run token \<lparr>success_count = 0, attempted = 0, world = w, trace = []\<rparr> (enumerate 1 ds))) \<le> length ds - 1"
proof (cases ds)
  case Nil
  then show ?thesis by simp
next
  case (Cons d ds')
  obtain u s where d: "d = (u, s)" by (cases d)
  let ?st = "\<lparr>success_count = 0, attempted = 0, world = w, trace = [Kept u s]\<rparr>"
  have step: "delete_loop run token \<lparr>success_count = 0, attempted = 0, world = w, trace = []\<rparr> (enumerate 1 ds)
     = delete_loop run token ?st (enumerate 2 ds')"
    using Cons d by (simp add: numeral_2_eq_2)
  from delete_loop_rest[of 2 run token ?st ds'] show ?thesis
    unfolding step using Cons d by simp
qed

text \<open>
  C3 (retention policy).  For every list \<open>ds\<close> of parsed records the loop of
  \<open>cleanup_project_deployments\<close> keeps exactly the first record (none when \<open>ds\<close> is
  empty) and passes the remaining \<open>length ds - 1\<close> records to the deleter in their
  order; the kept part followed by the deleted part is \<open>ds\<close> again.
\<close>

theorem retention_policy:
  "kept_of (trace (delete_loop run token \<lparr>success_count = 0, attempted = 0, world = w, trace = []\<rparr> (enumerate 1 ds))) = take 1 ds \<and>
   deleted_of (trace (delete_loop run token \<lparr>success_count = 0, attempted = 0, world = w, trace = []\<rparr> (enumerate 1 ds))) = drop 1 ds \<and>
   length (take 1 ds) = min 1 (length ds) \<and> length (drop 1 ds) = length ds - 1 \<and>
   take 1 ds @ drop 1 ds = ds"
  using delete_loop_all[of run token w ds] by simp

theorem retention_policy_witness:
  "kept_of (trace (delete_loop (sample_run []) (str ''t'')
      \<lparr>success_count = 0, attempted = 0, world = (), trace = []\<rparr>
      (enumerate 1 [(str ''a'', str ''Queued''), (str ''b'', str ''Queued''), (str ''c'', str ''Building'')])))
     = [(str ''a'', str ''Queued'')] \<and>
   deleted_of (trace (delete_loop (sample_run []) (str ''t'')
      \<lparr>success_count = 0, attempted = 0, world = (), trace = []\<rparr>
      (enumerate 1 [(str ''a'', str ''Queued''), (str ''b'', str ''Queued''), (str ''c'', str ''Building'')])))
     = [(str ''b'', str ''Queued''), (str ''c'', str ''Building'')]"
  using retention_policy[of "sample_run []" "str ''t''" "()"
      "[(str ''a'', str ''Queued''), (str ''b'', str ''Queued''), (str ''c'', str ''Building'')]"]
  by simp

lemma parse_empty: "parse_deployments uw v [] = []"
  by (simp add: parse_deployments_def parse_lines_def parse_primary_def strip_def fallback_row_def has_url_def)

lemma cleanup_unfold:
  "list_deployments run project token w = (Some output, w1) \<Longrightarrow>
   parse_deployments uw v output = ds \<Longrightarrow>
   cleanup_project_deployments run uw v project token w =
     (let st = delete_loop run token \<lparr>success_count = 0, attempted = 0, world = w1, trace = []\<rparr> (enumerate 1 ds)
      in ((success_count st, attempted st), trace st, world st))"
  by (cases "output = []"; cases "ds = []") (auto simp: cleanup_project_deployments_def parse_empty Let_def)

text \<open>
  C9 (outcome of a project).  When the lister gives an output with \<open>N\<close> parsed records,
  the attempted count is \<open>N - 1\<close> (each record but the first counts, whatever its
  deletion returns), the succeeded count is the number of successful deletions and is
  at most the attempted count, and both are 0 when there is no record.
\<close>

theorem outcome_counts:
  assumes "list_deployments run project token w = (Some output, w1)"
    and "cleanup_project_deployments run uw v project token w = ((s, a), tr, w2)"
  shows "a = length (parse_deployments uw v output) - 1 \<and> s \<le> a \<and>
         s = successes tr \<and> a = length (deleted_of tr) \<and>
         (parse_deployments uw v output = [] \<longrightarrow> (s, a) = (0, 0))"
proof -
  let ?ds = "parse_deployments uw v output"
  let ?st = "delete_loop run token \<lparr>success_count = 0, attempted = 0, world = w1, trace = []\<rparr> (enumerate 1 ?ds)"
  from cleanup_unfold[OF assms(1) refl, of uw v] assms(2)
  have e: "s = success_count ?st" "a = attempted ?st" "tr = trace ?st"
    by (simp_all add: Let_def)
  from delete_loop_all[of run token w1 ?ds] show ?thesis
    unfolding e by auto
qed

theorem outcome_counts_witness:
  "list_deployments (sample_run sample_table) (str ''demo'') (str ''t'') () = (Some sample_table, ()) \<and>
   cleanup_project_deployments (sample_run sample_table) plain_words [] (str ''demo'') (str ''t'') () =
     ((1, 1), [Kept (str ''https://a'') (str ''Queued''), Deleted (str ''https://b'') (str ''building'') True], ()) \<and>
   length (parse_deployments plain_words [] sample_table) = 2"
proof -
  have h1: "list_deployments (sample_run sample_table) (str ''demo'') (str ''t'') () = (Some sample_table, ())"
    by (simp add: run_cleanup sample_table_def strip_def is_space_def str_def)
  have p: "parse_deployments plain_words [] sample_table =
      [(str ''https://a'', str ''Queued''), (str ''https://b'', str ''building'')]"
    by (simp add: sample_table_def run_parse)
  have h2: "cleanup_project_deployments (sample_run sample_table) plain_words [] (str ''demo'') (str ''t'') () =
     ((1, 1), [Kept (str ''https://a'') (str ''Queued''), Deleted (str ''https://b'') (str ''building'') True], ())"
    using cleanup_unfold[OF h1 p] by (simp add: delete_deployment_def sample_run_def)
  from outcome_counts[OF h1 h2] have "length (parse_deployments plain_words [] sample_table) = 2"
    by linarith
  with h1 h2 show ?thesis by simp
qed

text \<open>
  C8 (failure of the lister).  When \<open>list_deployments\<close> gives no output for a project,
  its clean-up returns \<open>(0, 0)\<close> with an empty trace, hence without any call of the
  deleter, and the loop over the projects goes on with the remaining projects from
  unchanged totals.
\<close>

theorem lister_failure:
  assumes "list_deployments run project token w = (None, w1)"
  shows "cleanup_project_deployments run uw v project token w = ((0, 0), [], w1) \<and>
         project_loop run uw v token (totals, tr, w) (project # others) =
           project_loop run uw v token (totals, tr, w1) others"
proof -
  have c: "cleanup_project_deployments run uw v project token w = ((0, 0), [], w1)"
    using assms by (simp add: cleanup_project_deployments_def)
  obtain ts ta where t: "totals = (ts, ta)" by (cases totals)
  show ?thesis using c by (simp add: t)
qed

theorem lister_failure_witness:
  "list_deployments failing_run (str ''demo'') (str ''t'') () = (None, ()) \<and>
   cleanup_project_deployments failing_run plain_words [] (str ''demo'') (str ''t'') () = ((0, 0), [], ()) \<and>
   project_loop failing_run plain_words [] (str ''t'') ((2, 3), [], ()) [str ''demo''] = ((2, 3), [], ())"
proof -
  have h: "list_deployments failing_run (str ''demo'') (str ''t'') () = (None, ())"
    by (simp add: list_deployments_def execution_methods_def failing_run_def)
  from lister_failure[OF h, of plain_words "[]" "(2, 3)" "[]" "[]"] h show ?thesis by simp
qed

section \<open>The header line\<close>

lemma startswith_iff: "startswith s w \<longleftrightarrow> (\<exists>b. s = w @ b)"
  by (induction s w rule: startswith.induct) auto

lemma py_in_iff: "py_in w s \<longleftrightarrow> (\<exists>a b. s = a @ w @ b)"
proof (induction s)
  case Nil
  then show ?case by auto
next
  case (Cons x s)
  show ?case
  proof
    assume "py_in w (x # s)"
    then consider "startswith (x # s) w" | "py_in w s" by auto
    then show "\<exists>a b. x # s = a @ w @ b"
    proof cases
      case 1
      then obtain b where "x # s = [] @ w @ b" by (auto simp: startswith_iff)
      then show ?thesis by blast
    next
      case 2
      with Cons obtain a b where "s = a @ w @ b" by blast
      then have "x # s = (x # a) @ w @ b" by simp
      then show ?thesis by blast
    qed
  next
    assume "\<exists>a b. x # s = a @ w @ b"
    then obtain a b where ab: "x # s = a @ w @ b" by blast
    show "py_in w (x # s)"
    proof (cases a)
      case Nil
      with ab have "startswith (x # s) w" by (auto simp: startswith_iff)
      then show ?thesis by simp
    next
      case (Cons y a')
      with ab have "s = a' @ w @ b" by simp
      with Cons.IH show ?thesis by auto
    qed
  qed
qed

lemma py_in_rev: "py_in (rev w) (rev s) = py_in w s"
proof -
  have "(\<exists>a b. rev s = a @ rev w @ b) \<longleftrightarrow> (\<exists>a b. s = a @ w @ b)"
  proof
    assume "\<exists>a b. rev s = a @ rev w @ b"
    then obtain a b where "rev s = a @ rev w @ b" by blast
    then have "rev (rev s) = rev (a @ rev w @ b)" by simp
    then have "s = rev b @ w @ rev a" by simp
    then show "\<exists>a b. s = a @ w @ b" by blast
  next
    assume "\<exists>a b. s = a @ w @ b"
    then obtain a b where "s = a @ w @ b" by blast
    then have "rev s = rev b @ rev w @ rev a" by simp
    then show "\<exists>a b. rev s = a @ rev w @ b" by blast
  qed
  then show ?thesis by (simp add: py_in_iff)
qed

lemma py_in_lstrip:
  "w \<noteq> [] \<Longrightarrow> \<not> is_space (hd w) \<Longrightarrow> py_in w (dropWhile is_space s) = py_in w s"
proof (induction s)
  case Nil
  then show ?case by simp
next
  case (Cons x s)
  then obtain c w' where w: "w = c # w'" by (cases w) auto
  with Cons show ?case by (auto simp: w)
qed

lemma py_in_strip:
  assumes "w \<noteq> []" "\<not> is_space (hd w)" "\<not> is_space (last w)"
  shows "py_in w (strip s) = py_in w s"
proof -
  have r: "rev w \<noteq> []" "\<not> is_space (hd (rev w))" using assms by (simp_all add: hd_rev)
  have "py_in w (strip s) = py_in (rev w) (dropWhile is_space (rev (dropWhile is_space s)))"
    unfolding strip_def using py_in_rev[of "rev w" "dropWhile is_space (rev (dropWhile is_space s))"] by simp
  also have "\<dots> = py_in (rev w) (rev (dropWhile is_space s))" by (rule py_in_lstrip[OF r])
  also have "\<dots> = py_in w (dropWhile is_space s)" by (rule py_in_rev)
  also have "\<dots> = py_in w s" by (rule py_in_lstrip[OF assms(1,2)])
  finally show ?thesis .
qed

lemma header_keyword_strip: "has_header_keyword (strip l) = has_header_keyword l"
  unfolding has_header_keyword_def
  by (simp add: py_in_strip str_def is_space_def)

lemma blank_no_keyword: "strip l = [] \<Longrightarrow> \<not> has_header_keyword l"
  using header_keyword_strip[of l] by (simp add: has_header_keyword_def str_def)

lemma found_after_header:
  "header_found st \<Longrightarrow>
   FoundHeader i \<in> set (events (primary_loop st ls)) \<longleftrightarrow> FoundHeader i \<in> set (events st)"
  by (induction st ls rule: primary_loop.induct) (auto simp: Let_def split: option.splits)

lemma found_before_header:
  "\<not> header_found st \<Longrightarrow> \<not> start_parsing st \<Longrightarrow>
   FoundHeader i \<in> set (events (primary_loop st (enumerate n ls))) \<longleftrightarrow>
     FoundHeader i \<in> set (events st) \<or>
     (n \<le> i \<and> i < n + length ls \<and> has_header_keyword (ls ! (i - n)) \<and>
      (\<forall>j<i - n. \<not> has_header_keyword (ls ! j)))"
proof (induction ls arbitrary: n st)
  case Nil
  then show ?case by auto
next
  case (Cons l ls)
  show ?case
  proof (cases "has_header_keyword l")
    case True
    then have nb: "strip l \<noteq> []" using blank_no_keyword by blast
    let ?st = "st\<lparr>header_found := True, start_parsing := True, events := events st @ [FoundHeader n]\<rparr>"
    have step: "primary_loop st (enumerate n (l # ls)) = primary_loop ?st (enumerate (Suc n) ls)"
      using True nb Cons.prems by (simp add: header_keyword_strip Let_def)
    have "(n \<le> i \<and> i < n + length (l # ls) \<and> has_header_keyword ((l # ls) ! (i - n)) \<and>
      (\<forall>j<i - n. \<not> has_header_keyword ((l # ls) ! j))) \<longleftrightarrow> i = n"
      using True by (cases "i - n") auto
    then show ?thesis unfolding step by (simp add: found_after_header) blast
  next
    case False
    have step: "primary_loop st (enumerate n (l # ls)) = primary_loop st (enumerate (Suc n) ls)"
      using False Cons.prems by (simp add: header_keyword_strip Let_def)
    have "(n \<le> i \<and> i < n + length (l # ls) \<and> has_header_keyword ((l # ls) ! (i - n)) \<and>
      (\<forall>j<i - n. \<not> has_header_keyword ((l # ls) ! j))) \<longleftrightarrow>
      (Suc n \<le> i \<and> i < Suc n + length ls \<and> has_header_keyword (ls ! (i - Suc n)) \<and>
      (\<forall>j<i - Suc n. \<not> has_header_keyword (ls ! j)))" (is "?L \<longleftrightarrow> ?R")
    proof
      assume L: ?L
      with False have "i \<noteq> n" by (cases "i = n") auto
      with L obtain k where k: "i - n = Suc k" "i - Suc n = k" by (cases "i - n") auto
      from L k have "\<forall>j<k. \<not> has_header_keyword (ls ! j)"
        by (metis Suc_less_eq nth_Cons_Suc)
      with L k show ?R by auto
    next
      assume R: ?R
      then obtain k where k: "i - n = Suc k" "i - Suc n = k" by (cases "i - n") auto
      have "\<forall>j<Suc k. \<not> has_header_keyword ((l # ls) ! j)"
        using R False k by (auto simp: nth_Cons')
      with R k show ?L by auto
    qed
    with Cons.IH[OF Cons.prems, of "Suc n"] show ?thesis unfolding step by simp
  qed
qed

lemma events_grow: "set (events st) \<subseteq> set (events (primary_loop st ls))"
  by (induction st ls rule: primary_loop.induct) (auto simp: Let_def split: option.splits)

lemma deployments_grow: "set (deployments st) \<subseteq> set (deployments (primary_loop st ls))"
  by (induction st ls rule: primary_loop.induct) (auto simp: Let_def split: option.splits)

lemma row_after_header:
  "header_found st \<Longrightarrow> start_parsing st \<Longrightarrow> j < length ls \<Longrightarrow> strip (ls ! j) \<noteq> [] \<Longrightarrow>
   parse_count st + length (filter nonblank (take j ls)) < 10 \<Longrightarrow>
   TryRow (n + j) \<in> set (events (primary_loop st (enumerate n ls))) \<and>
   (\<forall>d. first_match patterns (ls ! j) = Some d \<longrightarrow>
        d \<in> set (deployments (primary_loop st (enumerate n ls))))"
proof (induction ls arbitrary: n st j)
  case Nil
  then show ?case by simp
next
  case (Cons l ls)
  show ?case
  proof (cases j)
    case 0
    with Cons.prems have nb: "strip l \<noteq> []" and c: "parse_count st < 10" by simp_all
    let ?st1 = "st\<lparr>parse_count := parse_count st + 1, events := events st @ [TryRow n]\<rparr>"
    show ?thesis
    proof (cases "first_match patterns l")
      case None
      have "primary_loop st (enumerate n (l # ls)) = primary_loop ?st1 (enumerate (Suc n) ls)"
        using nb c Cons.prems(1,2) None by (simp add: Let_def MAX_PARSE_ROWS_def)
      with events_grow[of ?st1 "enumerate (Suc n) ls"] None 0 show ?thesis by auto
    next
      case (Some d)
      let ?st2 = "?st1\<lparr>deployments := deployments ?st1 @ [d]\<rparr>"
      have "primary_loop st (enumerate n (l # ls)) = primary_loop ?st2 (enumerate (Suc n) ls)"
        using nb c Cons.prems(1,2) Some by (simp add: Let_def MAX_PARSE_ROWS_def)
      with events_grow[of ?st2 "enumerate (Suc n) ls"] deployments_grow[of ?st2 "enumerate (Suc n) ls"]
        Some 0 show ?thesis by auto
    qed
  next
    case (Suc k)
    show ?thesis
    proof (cases "strip l = []")
      case True
      have step: "primary_loop st (enumerate n (l # ls)) = primary_loop st (enumerate (Suc n) ls)"
        using True by simp
      have "parse_count st + length (filter nonblank (take k ls)) < 10"
        using Cons.prems(5) Suc True by (simp add: nonblank_def[abs_def])
      from Cons.IH[OF Cons.prems(1,2) _ _ this, of "Suc n"] Cons.prems(3,4) Suc
      show ?thesis unfolding step by simp
    next
      case False
      have c: "parse_count st + 1 + length (filter nonblank (take k ls)) < 10"
        using Cons.prems(5) Suc False by (simp add: nonblank_def[abs_def])
      let ?st1 = "st\<lparr>parse_count := parse_count st + 1, events := events st @ [TryRow n]\<rparr>"
      obtain st2 where st2: "primary_loop st (enumerate n (l # ls)) = primary_loop st2 (enumerate (Suc n) ls)"
        "header_found st2" "start_parsing st2" "parse_count st2 = parse_count st + 1"
        using False c Cons.prems(1,2)
        by (cases "first_match patterns l") (auto simp: Let_def MAX_PARSE_ROWS_def)
      from Cons.IH[OF st2(2,3), of k "Suc n"] Cons.prems(3,4) Suc c st2(4)
      show ?thesis unfolding st2(1) by simp
    qed
  qed
qed

lemma skip_to_header:
  "\<not> header_found st \<Longrightarrow> \<not> start_parsing st \<Longrightarrow> i < length ls \<Longrightarrow> has_header_keyword (ls ! i) \<Longrightarrow>
   \<forall>j<i. \<not> has_header_keyword (ls ! j) \<Longrightarrow>
   primary_loop st (enumerate n ls) =
     primary_loop (st\<lparr>header_found := True, start_parsing := True,
                       events := events st @ [FoundHeader (n + i)]\<rparr>)
       (enumerate (Suc (n + i)) (drop (Suc i) ls))"
proof (induction ls arbitrary: n i)
  case Nil
  then show ?case by simp
next
  case (Cons l ls)
  show ?case
  proof (cases i)
    case 0
    with Cons.prems have k: "has_header_keyword l" by simp
    then have "strip l \<noteq> []" using blank_no_keyword by blast
    with k Cons.prems(1,2) 0 show ?thesis by (simp add: header_keyword_strip Let_def)
  next
    case (Suc k)
    with Cons.prems(5) have nk: "\<not> has_header_keyword l" by auto
    have step: "primary_loop st (enumerate n (l # ls)) = primary_loop st (enumerate (Suc n) ls)"
      using nk Cons.prems(1,2) by (simp add: header_keyword_strip Let_def)
    have "\<forall>j<k. \<not> has_header_keyword (ls ! j)"
      using Cons.prems(5) Suc by (metis Suc_less_eq nth_Cons_Suc)
    from Cons.IH[OF Cons.prems(1,2) _ _ this, of "Suc n"] Cons.prems(3,4) Suc
    show ?thesis unfolding step by simp
  qed
qed

text \<open>
  C7 (header classification).  The first loop reports line \<open>i\<close> as the header exactly
  when the line contains one of the keywords \<open>Age\<close>, \<open>Deployment\<close>, \<open>Status\<close>,
  \<open>Environment\<close>, \<open>Duration\<close> (compared case-sensitively) and no earlier line does.  A
  later line \<open>j\<close> with a keyword is not a header: within the row cap it is tried as a
  data row, and a record that a pattern finds in it is in the result.
\<close>

theorem header_classification:
  "(FoundHeader i \<in> set (events (parse_primary lines)) \<longleftrightarrow>
      i < length lines \<and> has_header_keyword (lines ! i) \<and>
      (\<forall>j<i. \<not> has_header_keyword (lines ! j))) \<and>
   (FoundHeader i \<in> set (events (parse_primary lines)) \<longrightarrow> i < j \<longrightarrow> j < length lines \<longrightarrow>
      has_header_keyword (lines ! j) \<longrightarrow>
      length (filter nonblank (take (j - Suc i) (drop (Suc i) lines))) < 10 \<longrightarrow>
      FoundHeader j \<notin> set (events (parse_primary lines)) \<and>
      TryRow j \<in> set (events (parse_primary lines)) \<and>
      (\<forall>d. first_match patterns (lines ! j) = Some d \<longrightarrow>
           d \<in> set (deployments (parse_primary lines))))"
proof -
  let ?init = "\<lparr>start_parsing = False, header_found = False, parse_count = 0,
                 deployments = [], events = []\<rparr>"
  have iff: "\<And>i. FoundHeader i \<in> set (events (parse_primary lines)) \<longleftrightarrow>
      i < length lines \<and> has_header_keyword (lines ! i) \<and>
      (\<forall>j<i. \<not> has_header_keyword (lines ! j))"
    using found_before_header[of ?init _ 0 lines] by (simp add: parse_primary_def)
  have data: "TryRow j \<in> set (events (parse_primary lines)) \<and>
      (\<forall>d. first_match patterns (lines ! j) = Some d \<longrightarrow>
           d \<in> set (deployments (parse_primary lines)))"
    if h: "FoundHeader i \<in> set (events (parse_primary lines))" and ij: "i < j" "j < length lines"
      and kj: "has_header_keyword (lines ! j)"
      and c: "length (filter nonblank (take (j - Suc i) (drop (Suc i) lines))) < 10"
  proof -
    from h iff[of i] have hi: "i < length lines" "has_header_keyword (lines ! i)"
      "\<forall>j<i. \<not> has_header_keyword (lines ! j)" by simp_all
    let ?st = "?init\<lparr>header_found := True, start_parsing := True,
                       events := events ?init @ [FoundHeader (0 + i)]\<rparr>"
    have e: "parse_primary lines = primary_loop ?st (enumerate (Suc (0 + i)) (drop (Suc i) lines))"
      unfolding parse_primary_def by (rule skip_to_header[OF _ _ hi]) simp_all
    have nb: "strip (lines ! j) \<noteq> []" using kj blank_no_keyword by blast
    have j': "j - Suc i < length (drop (Suc i) lines)" "drop (Suc i) lines ! (j - Suc i) = lines ! j"
      "Suc (0 + i) + (j - Suc i) = j"
      using ij by simp_all
    from row_after_header[of ?st "j - Suc i" "drop (Suc i) lines" "Suc (0 + i)"] j' nb c
    show ?thesis unfolding e by simp
  qed
  have "FoundHeader j \<notin> set (events (parse_primary lines))"
    if "FoundHeader i \<in> set (events (parse_primary lines))" "i < j"
    using that iff[of i] iff[of j] by auto
  with iff[of i] data show ?thesis by blast
qed

theorem header_classification_witness:
  "\<not> has_header_keyword (str ''status x'') \<and>
   FoundHeader 0 \<notin> set (events (parse_primary sample_lines)) \<and>
   FoundHeader 1 \<in> set (events (parse_primary sample_lines)) \<and>
   has_header_keyword (sample_lines ! 3) \<and>
   FoundHeader 3 \<notin> set (events (parse_primary sample_lines)) \<and>
   TryRow 3 \<in> set (events (parse_primary sample_lines))"
proof -
  have k: "\<not> has_header_keyword (sample_lines ! 0)" "has_header_keyword (sample_lines ! 1)"
    "has_header_keyword (sample_lines ! 3)"
    by (simp_all add: sample_lines_def has_header_keyword_def str_def)
  have l: "length sample_lines = 4" by (simp add: sample_lines_def)
  have c: "length (filter nonblank (take (3 - Suc 1) (drop (Suc 1) sample_lines))) < 10"
    by (simp add: sample_lines_def)
  from header_classification[of 0 sample_lines 3] k have a: "FoundHeader 0 \<notin> set (events (parse_primary sample_lines))"
    by simp
  from header_classification[of 1 sample_lines 3] k l c a
  show ?thesis by (auto simp: sample_lines_def less_Suc_eq)
qed

section \<open>The first loop on a table with a header\<close>















text \<open>
  Outside that hypothesis: in a row of a ready deployment whose URL contains \<open>queued\<close>,
  pattern 4 gives up characters of the URL until the status can be read from inside it,
  and the loop records the shortened URL as a queued deployment.
\<close>

lemma ready_row_with_queued_in_url:
  "parse_deployments plain_words [] (str ''Age\<newline>x https://a Building\<newline>x https://b-queued Ready'') =
     [(str ''https://a'', str ''Building''), (str ''https://b-'', str ''queued'')]"
  by (simp add: run_parse)

section \<open>The status of a record\<close>


















section \<open>The row caps\<close>

lemma fallback_loop_all:
  "fallback_loop uw lines 0 ds js = ds @ concat (map (fallback_row uw lines) js)"
  by (induction js arbitrary: ds) simp_all

lemma primary_loop_step_count:
  "(\<exists>st'. primary_loop st ((i, l) # ls) = primary_loop st' ls \<and>
          deployments st' = deployments st \<and> parse_count st' = parse_count st) \<or>
   deployments (primary_loop st ((i, l) # ls)) = deployments st \<or>
   (\<exists>st'. primary_loop st ((i, l) # ls) = primary_loop st' ls \<and>
          parse_count st' = parse_count st + 1 \<and> parse_count st' \<le> 10 \<and>
          length (deployments st') \<le> length (deployments st) + 1)"
proof (cases "strip l = []")
  case True
  then have "primary_loop st ((i, l) # ls) = primary_loop st ls" by simp
  then show ?thesis by blast
next
  case nb: False
  show ?thesis
  proof (cases "\<not> header_found st \<and> has_header_keyword (strip l)")
    case True
    let ?st = "st\<lparr>header_found := True, start_parsing := True, events := events st @ [FoundHeader i]\<rparr>"
    have "primary_loop st ((i, l) # ls) = primary_loop ?st ls" "deployments ?st = deployments st"
      "parse_count ?st = parse_count st"
      using nb True by (simp_all add: Let_def)
    then show ?thesis by blast
  next
    case nh: False
    show ?thesis
    proof (cases "start_parsing st")
      case False
      have "primary_loop st ((i, l) # ls) = primary_loop st ls"
        using nb nh False by (auto simp: Let_def)
      then show ?thesis by blast
    next
      case sp: True
      let ?st1 = "st\<lparr>parse_count := parse_count st + 1, events := events st @ [TryRow i]\<rparr>"
      show ?thesis
      proof (cases "parse_count ?st1 > MAX_PARSE_ROWS")
        case True
        have "deployments (primary_loop st ((i, l) # ls)) = deployments st"
          using nb nh sp True by (auto simp: Let_def)
        then show ?thesis by blast
      next
        case nc: False
        then have c: "parse_count st + 1 \<le> 10" by (simp add: MAX_PARSE_ROWS_def)
        show ?thesis
        proof (cases "first_match patterns l")
          case None
          have "primary_loop st ((i, l) # ls) = primary_loop ?st1 ls"
            "parse_count ?st1 = parse_count st + 1" "length (deployments ?st1) \<le> length (deployments st) + 1"
            using nb nh sp nc None by (auto simp: Let_def)
          with c show ?thesis by auto
        next
          case (Some d)
          let ?st = "?st1\<lparr>deployments := deployments ?st1 @ [d]\<rparr>"
          have "primary_loop st ((i, l) # ls) = primary_loop ?st ls"
            "parse_count ?st = parse_count st + 1" "length (deployments ?st) \<le> length (deployments st) + 1"
            using nb nh sp nc Some by (auto simp: Let_def)
          with c show ?thesis by auto
        qed
      qed
    qed
  qed
qed

lemma primary_loop_cap:
  "parse_count st \<le> 10 \<Longrightarrow>
   length (deployments (primary_loop st ls)) + parse_count st \<le> length (deployments st) + 10"
proof (induction ls arbitrary: st)
  case Nil
  then show ?case by simp
next
  case (Cons a ls)
  obtain i l where a: "a = (i, l)" by (cases a)
  from primary_loop_step_count[of st i l ls] show ?case
  proof (elim disjE exE conjE)
    fix st' assume s: "primary_loop st ((i, l) # ls) = primary_loop st' ls"
      "deployments st' = deployments st" "parse_count st' = parse_count st"
    with Cons.IH[of st'] Cons.prems show ?thesis unfolding a by simp
  next
    assume "deployments (primary_loop st ((i, l) # ls)) = deployments st"
    with Cons.prems show ?thesis unfolding a by simp
  next
    fix st' assume s: "primary_loop st ((i, l) # ls) = primary_loop st' ls"
      "parse_count st' = parse_count st + 1" "parse_count st' \<le> 10"
      "length (deployments st') \<le> length (deployments st) + 1"
    with Cons.IH[of st'] show ?thesis unfolding a by simp
  qed
qed

text \<open>The row cap of the first loop holds: it never yields more than ten records.\<close>

lemma primary_row_cap: "length (deployments (parse_primary lines)) \<le> 10"
  using primary_loop_cap[of "\<lparr>start_parsing = False, header_found = False, parse_count = 0,
                   deployments = [], events = []\<rparr>" "enumerate 0 lines"]
  by (simp add: parse_primary_def)

text \<open>
  C1 (row caps).  The second loop has no such cap: its counter is never increased, so
  the test at the head of the loop never stops it, and eleven lines without a header
  give eleven records.
\<close>

theorem fallback_cap_failing_input:
  "parse_deployments plain_words [] eleven_rows =
     [(str ''https://a'', str ''Queued''), (str ''https://b'', str ''Queued''),
      (str ''https://c'', str ''Queued''), (str ''https://d'', str ''Queued''),
      (str ''https://e'', str ''Queued''), (str ''https://f'', str ''Queued''),
      (str ''https://g'', str ''Queued''), (str ''https://h'', str ''Queued''),
      (str ''https://i'', str ''Queued''), (str ''https://j'', str ''Queued''),
      (str ''https://k'', str ''Queued'')] \<and>
   length (parse_deployments plain_words [] eleven_rows) = 11"
  by (simp add: eleven_rows_def run_parse)

end
